theory Spec2Isabelle
  imports Main "HOL-Library.Word"
begin

section \<open>The Koinos example token: data model\<close>

text \<open>
  A shallow embedding of \<^verbatim>\<open>assembly/Token.ts\<close>. Addresses and storage keys are
  \<^verbatim>\<open>Uint8Array\<close>s, amounts are \<^verbatim>\<open>u64\<close>. The three storage spaces of the class
  (\<^verbatim>\<open>supply\<close>, \<^verbatim>\<open>balances\<close>, \<^verbatim>\<open>allowances\<close>) and the events handed to
  \<^verbatim>\<open>System.event\<close> form the state that every method takes and returns.
\<close>

type_synonym bytes = "8 word list"
type_synonym u64 = "64 word"

text \<open>
  How a call can end abnormally: \<^verbatim>\<open>System.require\<close> and \<^verbatim>\<open>SafeMath\<close> revert with a
  message, \<^verbatim>\<open>Uint8Array.set\<close> throws a RangeError when the source does not fit, and a
  non-null assertion (\<^verbatim>\<open>publicKey!\<close>) aborts on null.
\<close>

datatype error = Revert string | RangeError | UnexpectedNull

datatype event_data =
    approve_event bytes bytes u64
  | transfer_event bytes bytes u64
  | mint_event bytes u64
  | burn_event bytes u64

record event =
  ev_name :: string
  ev_data :: event_data
  ev_impacted :: "bytes list"

text \<open>
  \<^verbatim>\<open>supply\<close> is a \<^verbatim>\<open>Storage.Obj\<close> and \<^verbatim>\<open>balances\<close> a \<^verbatim>\<open>Storage.Map\<close>, both with the
  default \<^verbatim>\<open>new token.uint64(0)\<close>; \<^verbatim>\<open>allowances\<close> is a \<^verbatim>\<open>Storage.Map\<close> whose default
  is \<^verbatim>\<open>null\<close>. A store is a partial map: \<^verbatim>\<open>put\<close> binds the key, \<^verbatim>\<open>get\<close> reads the
  binding back.
\<close>

record token_state =
  supply_obj :: "u64 option"
  balances :: "bytes \<rightharpoonup> u64"
  allowances :: "bytes \<rightharpoonup> u64"
  events :: "event list"

definition init_state :: token_state where
  "init_state = \<lparr>supply_obj = None, balances = Map.empty, allowances = Map.empty, events = []\<rparr>"

text \<open>
  What the host answers during one call: \<^verbatim>\<open>System.getContractId()\<close>,
  \<^verbatim>\<open>System.getCaller().caller\<close> (possibly null), the decoded transaction field
  \<^verbatim>\<open>signatures\<close>, the transaction field \<^verbatim>\<open>id\<close>, and the two cryptographic functions
  \<^verbatim>\<open>System.recoverPublicKey\<close> (which may return null) and
  \<^verbatim>\<open>Crypto.addressFromPublicKey\<close>.
\<close>

record host_env =
  contractId :: bytes
  caller :: "bytes option"
  signatures :: "bytes list"
  tx_id :: bytes
  recoverPublicKey :: "bytes \<Rightarrow> bytes \<Rightarrow> bytes option"
  addressFromPublicKey :: "bytes \<Rightarrow> bytes"

record allowance_arguments =
  al_owner :: bytes
  al_spender :: bytes

record approve_arguments =
  ap_owner :: bytes
  ap_spender :: bytes
  ap_value :: u64

record transfer_arguments =
  tr_from :: bytes
  tr_to :: bytes
  tr_value :: u64

record mint_arguments =
  mi_to :: bytes
  mi_value :: u64

record burn_arguments =
  bu_from :: bytes
  bu_value :: u64

section \<open>Storage reads and byte-array keys\<close>

text \<open>\<^verbatim>\<open>this.supply.get()!\<close>: the stored counter, or the default 0.\<close>

definition total_supply :: "token_state \<Rightarrow> u64" where
  "total_supply s = (case supply_obj s of None \<Rightarrow> 0 | Some v \<Rightarrow> v)"

text \<open>\<^verbatim>\<open>this.balances.get(owner)!\<close>: the stored balance, or the default 0.\<close>

definition balance_of :: "token_state \<Rightarrow> bytes \<Rightarrow> u64" where
  "balance_of s owner = (case balances s owner of None \<Rightarrow> 0 | Some v \<Rightarrow> v)"

text \<open>
  \<^verbatim>\<open>target.set(source, offset)\<close> on a \<^verbatim>\<open>Uint8Array\<close>: copies \<^verbatim>\<open>source\<close> into
  \<^verbatim>\<open>target\<close> from \<^verbatim>\<open>offset\<close> on, and throws a RangeError when it does not fit.
\<close>

definition set_bytes :: "bytes \<Rightarrow> bytes \<Rightarrow> nat \<Rightarrow> error + bytes" where
  "set_bytes target source offset =
     (if length target < length source + offset then Inl RangeError
      else Inr (take offset target @ source @ drop (offset + length source) target))"

text \<open>
  The key of an allowance, as \<^verbatim>\<open>allowance\<close> and \<^verbatim>\<open>_approve\<close> build it:
  \<^verbatim>\<open>new Uint8Array(50); key.set(owner, 0); key.set(spender, 25)\<close>.
\<close>

definition allowance_key :: "bytes \<Rightarrow> bytes \<Rightarrow> error + bytes" where
  "allowance_key owner spender =
     (case set_bytes (replicate 50 0) owner 0 of
        Inl e \<Rightarrow> Inl e
      | Inr key \<Rightarrow> set_bytes key spender 25)"

text \<open>The query \<^verbatim>\<open>allowance\<close>: an absent record reads as 0.\<close>

definition allowance :: "allowance_arguments \<Rightarrow> token_state \<Rightarrow> error + u64" where
  "allowance args s =
     (case allowance_key (al_owner args) (al_spender args) of
        Inl e \<Rightarrow> Inl e
      | Inr key \<Rightarrow> (case allowances s key of None \<Rightarrow> Inr 0 | Some a \<Rightarrow> Inr a))"

section \<open>Authority\<close>

text \<open>
  The loop of \<^verbatim>\<open>getSigners\<close>: one address per signature, in order; a signature whose
  public key cannot be recovered aborts the call at \<^verbatim>\<open>publicKey!\<close>.
\<close>

fun recover_signers :: "host_env \<Rightarrow> bytes list \<Rightarrow> error + bytes list" where
  "recover_signers env [] = Inr []"
| "recover_signers env (sg # sgs) =
     (case recoverPublicKey env sg (tx_id env) of
        None \<Rightarrow> Inl UnexpectedNull
      | Some publicKey \<Rightarrow>
          (case recover_signers env sgs of
             Inl e \<Rightarrow> Inl e
           | Inr signers \<Rightarrow> Inr (addressFromPublicKey env publicKey # signers)))"

definition getSigners :: "host_env \<Rightarrow> error + bytes list" where
  "getSigners env = recover_signers env (signatures env)"

text \<open>The last loop of \<^verbatim>\<open>check_authority\<close>: is the account one of the signers?\<close>

fun signed_by :: "bytes \<Rightarrow> bytes list \<Rightarrow> bool" where
  "signed_by account [] = False"
| "signed_by account (signer # signers) =
     (if account = signer then True else signed_by account signers)"

text \<open>
  The test \<^verbatim>\<open>caller.caller && caller.caller.length > 0\<close>: the immediate calling contract,
  when there is one.
\<close>

definition calling_contract :: "host_env \<Rightarrow> bytes option" where
  "calling_contract env =
     (case caller env of
        None \<Rightarrow> None
      | Some c \<Rightarrow> if 0 < length c then Some c else None)"

text \<open>
  \<^verbatim>\<open>check_authority\<close>. The key is filled with the account only when allowances are
  accepted, and with the caller only on the allowance branch. An allowance that covers the
  amount is spent and stored at once; otherwise the caller must be the account itself.
  Without a calling contract the signers of the transaction decide.
\<close>

definition check_authority ::
  "host_env \<Rightarrow> bytes \<Rightarrow> bool \<Rightarrow> u64 \<Rightarrow> token_state \<Rightarrow> (error + bool) \<times> token_state" where
  "check_authority env account acceptAllowances amount s =
     (case (if acceptAllowances then set_bytes (replicate 50 0) account 0
            else Inr (replicate 50 0)) of
        Inl e \<Rightarrow> (Inl e, s)
      | Inr key \<Rightarrow>
          (case calling_contract env of
             Some c \<Rightarrow>
               (if acceptAllowances then
                  (case set_bytes key c 25 of
                     Inl e \<Rightarrow> (Inl e, s)
                   | Inr key' \<Rightarrow>
                       (case allowances s key' of
                          Some a \<Rightarrow>
                            if amount \<le> a
                            then (Inr True, s\<lparr>allowances := (allowances s)(key' \<mapsto> a - amount)\<rparr>)
                            else (Inr (account = c), s)
                        | None \<Rightarrow> (Inr (account = c), s)))
                else (Inr (account = c), s))
           | None \<Rightarrow>
               (case getSigners env of
                  Inl e \<Rightarrow> (Inl e, s)
                | Inr signers \<Rightarrow> (Inr (signed_by account signers), s))))"

section \<open>The operations\<close>

text \<open>\<^verbatim>\<open>System.event(name, data, impacted)\<close> appends to the events of the call.\<close>

definition emit :: "string \<Rightarrow> event_data \<Rightarrow> bytes list \<Rightarrow> token_state \<Rightarrow> token_state" where
  "emit name data impacted s =
     s\<lparr>events := events s @ [\<lparr>ev_name = name, ev_data = data, ev_impacted = impacted\<rparr>]\<rparr>"

text \<open>\<^verbatim>\<open>SafeMath.sub(a, b, message)\<close> of the SDK: reverts with the message on underflow.\<close>

definition safe_sub :: "u64 \<Rightarrow> u64 \<Rightarrow> string \<Rightarrow> error + u64" where
  "safe_sub a b message = (if a < b then Inl (Revert message) else Inr (a - b))"

text \<open>The source's \<^verbatim>\<open>_approve\<close>.\<close>

definition approve_impl :: "approve_arguments \<Rightarrow> token_state \<Rightarrow> (error + unit) \<times> token_state" where
  "approve_impl args s =
     (case allowance_key (ap_owner args) (ap_spender args) of
        Inl e \<Rightarrow> (Inl e, s)
      | Inr key \<Rightarrow>
          (Inr (),
           emit ''token.approve''
             (approve_event (ap_owner args) (ap_spender args) (ap_value args))
             [ap_spender args, ap_owner args]
             (s\<lparr>allowances := (allowances s)(key \<mapsto> ap_value args)\<rparr>)))"

text \<open>
  The source's \<^verbatim>\<open>_transfer\<close>: the debit is stored before the balance of \<^verbatim>\<open>to\<close> is
  read; both \<^verbatim>\<open>-=\<close> and \<^verbatim>\<open>+=\<close> are 64-bit operations.
\<close>

definition transfer_impl :: "transfer_arguments \<Rightarrow> token_state \<Rightarrow> (error + unit) \<times> token_state" where
  "transfer_impl args s =
     (let fromBalance = balance_of s (tr_from args) in
      if \<not> tr_value args \<le> fromBalance
      then (Inl (Revert ''account 'from' has insufficient balance''), s)
      else
        (let s1 = s\<lparr>balances := (balances s)(tr_from args \<mapsto> fromBalance - tr_value args)\<rparr>;
             toBalance = balance_of s1 (tr_to args);
             s2 = s1\<lparr>balances := (balances s1)(tr_to args \<mapsto> toBalance + tr_value args)\<rparr>
         in (Inr (),
             emit ''token.transfer''
               (transfer_event (tr_from args) (tr_to args) (tr_value args))
               [tr_to args, tr_from args] s2)))"

text \<open>
  The source's \<^verbatim>\<open>_mint\<close>. \<^verbatim>\<open>Constants.max_supply\<close> is build-time configuration and a
  parameter here.
\<close>

definition mint_impl :: "u64 \<Rightarrow> mint_arguments \<Rightarrow> token_state \<Rightarrow> (error + unit) \<times> token_state" where
  "mint_impl max_supply args s =
     (let sup = total_supply s in
      case safe_sub max_supply (mi_value args) ''mint would overflow supply'' of
        Inl e \<Rightarrow> (Inl e, s)
      | Inr room \<Rightarrow>
          if \<not> sup \<le> room then (Inl (Revert ''mint would overflow supply''), s)
          else
            (let toBalance = balance_of s (mi_to args);
                 s1 = s\<lparr>balances := (balances s)(mi_to args \<mapsto> toBalance + mi_value args)\<rparr>;
                 s2 = s1\<lparr>supply_obj := Some (sup + mi_value args)\<rparr>
             in (Inr (),
                 emit ''token.mint'' (mint_event (mi_to args) (mi_value args)) [mi_to args] s2)))"

text \<open>The public \<^verbatim>\<open>approve\<close>: \<^verbatim>\<open>check_authority(args.owner, false, 0)\<close>, then \<^verbatim>\<open>_approve\<close>.\<close>

definition approve :: "host_env \<Rightarrow> approve_arguments \<Rightarrow> token_state \<Rightarrow> (error + unit) \<times> token_state" where
  "approve env args s =
     (case check_authority env (ap_owner args) False 0 s of
        (Inl e, s1) \<Rightarrow> (Inl e, s1)
      | (Inr isAuthorized, s1) \<Rightarrow>
          if \<not> isAuthorized then (Inl (Revert ''approve operation not authorized''), s1)
          else approve_impl args s1)"

text \<open>The public \<^verbatim>\<open>transfer\<close>: \<^verbatim>\<open>check_authority(args.from, true, args.value)\<close>, then \<^verbatim>\<open>_transfer\<close>.\<close>

definition transfer :: "host_env \<Rightarrow> transfer_arguments \<Rightarrow> token_state \<Rightarrow> (error + unit) \<times> token_state" where
  "transfer env args s =
     (case check_authority env (tr_from args) True (tr_value args) s of
        (Inl e, s1) \<Rightarrow> (Inl e, s1)
      | (Inr isAuthorized, s1) \<Rightarrow>
          if \<not> isAuthorized then (Inl (Revert ''from has not authorized transfer''), s1)
          else transfer_impl args s1)"

text \<open>The public \<^verbatim>\<open>mint\<close>: \<^verbatim>\<open>check_authority(this.contractId, false, 0)\<close>, then \<^verbatim>\<open>_mint\<close>.\<close>

definition mint :: "u64 \<Rightarrow> host_env \<Rightarrow> mint_arguments \<Rightarrow> token_state \<Rightarrow> (error + unit) \<times> token_state" where
  "mint max_supply env args s =
     (case check_authority env (contractId env) False 0 s of
        (Inl e, s1) \<Rightarrow> (Inl e, s1)
      | (Inr isAuthorized, s1) \<Rightarrow>
          if \<not> isAuthorized then (Inl (Revert ''owner has not authorized mint''), s1)
          else mint_impl max_supply args s1)"

text \<open>
  The public \<^verbatim>\<open>burn\<close>: its body is commented out, it only returns the empty object.
  The private \<^verbatim>\<open>_burn\<close> is called from nowhere and has no counterpart here.
\<close>

definition burn :: "host_env \<Rightarrow> burn_arguments \<Rightarrow> token_state \<Rightarrow> (error + unit) \<times> token_state" where
  "burn env args s = (Inr (), s)"

section \<open>Calls as the host runs them\<close>

text \<open>
  The methods above thread the storage as the code writes it: the state returned beside
  an error is the storage at the point where the call stopped. \<^verbatim>\<open>System.require\<close>
  with a false condition, a failing \<^verbatim>\<open>SafeMath.sub\<close> and an abort all end the call as
  a failure, and the host then discards every write and event of the failed call; a call
  that returns keeps them. \<open>call_contract\<close> is a call as the host completes it.
\<close>

definition call_contract ::
  "(token_state \<Rightarrow> (error + 'a) \<times> token_state) \<Rightarrow> token_state \<Rightarrow> (error + 'a) \<times> token_state" where
  "call_contract f s = (case f s of (Inl e, s') \<Rightarrow> (Inl e, s) | (Inr r, s') \<Rightarrow> (Inr r, s'))"

text \<open>The same call made \<open>n\<close> times in a row, stopping at the first failure.\<close>

fun repeat_call ::
  "nat \<Rightarrow> (token_state \<Rightarrow> (error + unit) \<times> token_state) \<Rightarrow> token_state \<Rightarrow> (error + unit) \<times> token_state" where
  "repeat_call 0 f s = (Inr (), s)"
| "repeat_call (Suc n) f s =
     (case call_contract f s of
        (Inl e, s') \<Rightarrow> (Inl e, s')
      | (Inr r, s') \<Rightarrow> repeat_call n f s')"

datatype operation =
    Approve approve_arguments
  | Transfer transfer_arguments
  | Mint mint_arguments
  | Burn burn_arguments

fun run_operation :: "u64 \<Rightarrow> host_env \<Rightarrow> operation \<Rightarrow> token_state \<Rightarrow> (error + unit) \<times> token_state" where
  "run_operation max_supply env (Approve args) = approve env args"
| "run_operation max_supply env (Transfer args) = transfer env args"
| "run_operation max_supply env (Mint args) = mint max_supply env args"
| "run_operation max_supply env (Burn args) = burn env args"

text \<open>
  The states the contract can be in: the empty storage, and what any call, under any
  answers of the host, leaves behind.
\<close>

inductive reachable :: "u64 \<Rightarrow> token_state \<Rightarrow> bool" for max_supply :: u64 where
  reachable_init: "reachable max_supply init_state"
| reachable_step:
    "reachable max_supply s \<Longrightarrow>
     reachable max_supply (snd (call_contract (run_operation max_supply env oper) s))"

text \<open>The sum of all stored balances, as a natural number.\<close>

definition stored_sum :: "(bytes \<rightharpoonup> u64) \<Rightarrow> nat" where
  "stored_sum b = (\<Sum>k \<in> dom b. unat (the (b k)))"

definition sum_balances :: "token_state \<Rightarrow> nat" where
  "sum_balances s = stored_sum (balances s)"

text \<open>
  The ledger invariant: finitely many balance records, whose sum is the supply counter,
  and a supply within the configured maximum.
\<close>

definition ledger_invariant :: "u64 \<Rightarrow> token_state \<Rightarrow> bool" where
  "ledger_invariant max_supply s \<longleftrightarrow>
     finite (dom (balances s)) \<and> sum_balances s = unat (total_supply s) \<and>
     total_supply s \<le> max_supply"

section \<open>Concrete accounts and host answers\<close>

text \<open>
  Three 25-byte addresses and a host whose signature recovery is the identity (a signature
  stands for the address that made it), for evaluating the operations on concrete inputs.
\<close>

definition addr_a :: bytes where "addr_a = 1 # replicate 24 0"
definition addr_b :: bytes where "addr_b = 2 # replicate 24 0"
definition token_id :: bytes where "token_id = 3 # replicate 24 0"

definition test_env :: "bytes option \<Rightarrow> bytes list \<Rightarrow> host_env" where
  "test_env c sigs =
     \<lparr>contractId = token_id, caller = c, signatures = sigs, tx_id = [],
      recoverPublicKey = (\<lambda>sg tx. Some sg), addressFromPublicKey = (\<lambda>publicKey. publicKey)\<rparr>"

text \<open>The state after the contract minted 123 units to \<open>addr_a\<close> (maximum supply 1000).\<close>

definition minted :: token_state where
  "minted = snd (call_contract
      (run_operation 1000 (test_env (Some token_id) []) (Mint \<lparr>mi_to = addr_a, mi_value = 123\<rparr>))
      init_state)"

text \<open>
  A state in which \<open>addr_a\<close> holds 100 units and has granted \<open>addr_b\<close> an
  allowance of 500, and one in which the granted allowance is an explicit 0.
\<close>

definition granted :: token_state where
  "granted = \<lparr>supply_obj = Some 100, balances = [addr_a \<mapsto> 100],
               allowances = [addr_a @ addr_b \<mapsto> 500], events = []\<rparr>"

definition granted_zero :: token_state where
  "granted_zero = \<lparr>supply_obj = Some 100, balances = [addr_a \<mapsto> 100],
                    allowances = [addr_a @ addr_b \<mapsto> 0], events = []\<rparr>"

section \<open>Authority: basic facts\<close>

lemma signed_by_iff: "signed_by account signers = (account \<in> set signers)"
  by (induction signers) auto

lemma recover_signers_map:
  "recover_signers env sigs =
     (if list_all (\<lambda>sg. recoverPublicKey env sg (tx_id env) \<noteq> None) sigs
      then Inr (map (\<lambda>sg. addressFromPublicKey env (the (recoverPublicKey env sg (tx_id env)))) sigs)
      else Inl UnexpectedNull)"
  by (induction sigs) (auto split: option.splits)

lemma check_authority_frame:
  "balances (snd (check_authority env account acc amount s)) = balances s \<and>
   supply_obj (snd (check_authority env account acc amount s)) = supply_obj s \<and>
   events (snd (check_authority env account acc amount s)) = events s"
  by (simp add: check_authority_def split: sum.splits option.splits)

lemma check_authority_no_allowances:
  "check_authority env account False amount s =
     (case calling_contract env of
        Some c \<Rightarrow> (Inr (account = c), s)
      | None \<Rightarrow> (case getSigners env of Inl e \<Rightarrow> (Inl e, s)
                 | Inr signers \<Rightarrow> (Inr (account \<in> set signers), s)))"
  by (simp add: check_authority_def signed_by_iff split: sum.splits option.splits)

section \<open>Sums of stored balances\<close>

lemma stored_sum_upd:
  assumes "finite (dom b)"
  shows "stored_sum (b(x \<mapsto> v)) + unat (case b x of None \<Rightarrow> 0 | Some w \<Rightarrow> w) = stored_sum b + unat v"
proof (cases "b x")
  case None
  then have "x \<notin> dom b" by auto
  moreover have "dom (b(x \<mapsto> v)) = insert x (dom b)" by simp
  moreover have "(\<Sum>k \<in> dom b. unat (the ((b(x \<mapsto> v)) k))) = (\<Sum>k \<in> dom b. unat (the (b k)))"
    using \<open>x \<notin> dom b\<close> by (intro sum.cong) auto
  ultimately show ?thesis using assms None
    by (simp add: stored_sum_def)
next
  case (Some w)
  then have x: "x \<in> dom b" by auto
  then have d: "dom (b(x \<mapsto> v)) = dom b" by auto
  have "(\<Sum>k \<in> dom b. unat (the ((b(x \<mapsto> v)) k))) = unat v + (\<Sum>k \<in> dom b - {x}. unat (the ((b(x \<mapsto> v)) k)))"
    using assms x by (simp add: sum.remove)
  moreover have "(\<Sum>k \<in> dom b. unat (the (b k))) = unat w + (\<Sum>k \<in> dom b - {x}. unat (the (b k)))"
    using assms x Some by (simp add: sum.remove)
  moreover have "(\<Sum>k \<in> dom b - {x}. unat (the ((b(x \<mapsto> v)) k))) = (\<Sum>k \<in> dom b - {x}. unat (the (b k)))"
    by (rule sum.cong) auto
  ultimately show ?thesis using Some d by (simp add: stored_sum_def)
qed

lemma stored_le_sum:
  assumes "finite (dom b)"
  shows "unat (case b x of None \<Rightarrow> 0 | Some w \<Rightarrow> w) \<le> stored_sum b"
proof (cases "b x")
  case None then show ?thesis by simp
next
  case (Some w)
  then have "x \<in> dom b" by auto
  then have "unat (the (b x)) \<le> (\<Sum>k \<in> dom b. unat (the (b k)))"
    using assms by (intro member_le_sum) auto
  then show ?thesis using Some by (simp add: stored_sum_def)
qed

section \<open>The ledger invariant is kept by every operation\<close>

lemma unat_add_no_wrap:
  fixes a v :: u64
  assumes "unat a + unat v \<le> n" "n < 2 ^ 64"
  shows "unat (a + v) = unat a + unat v"
  using assms by (simp add: unat_add_lem [THEN iffD1])

lemma transfer_impl_invariant:
  assumes fin: "finite (dom (balances s))"
      and sum: "sum_balances s = unat (total_supply s)"
  shows "finite (dom (balances (snd (transfer_impl args s)))) \<and>
         sum_balances (snd (transfer_impl args s)) = unat (total_supply (snd (transfer_impl args s))) \<and>
         total_supply (snd (transfer_impl args s)) = total_supply s"
proof (cases "tr_value args \<le> balance_of s (tr_from args)")
  case False
  then show ?thesis using fin sum by (simp add: transfer_impl_def)
next
  case True
  define b where "b = balances s"
  define v where "v = tr_value args"
  define fb where "fb = balance_of s (tr_from args)"
  define b1 where "b1 = b(tr_from args \<mapsto> fb - v)"
  define tb where "tb = (case b1 (tr_to args) of None \<Rightarrow> 0 | Some w \<Rightarrow> w)"
  define b2 where "b2 = b1(tr_to args \<mapsto> tb + v)"
  have fb: "fb = (case b (tr_from args) of None \<Rightarrow> 0 | Some w \<Rightarrow> w)"
    by (simp add: fb_def b_def balance_of_def)
  have le: "unat v \<le> unat fb" using True by (simp add: v_def fb_def word_le_nat_alt)
  have sub: "unat (fb - v) = unat fb - unat v"
    using True by (simp add: unat_sub v_def fb_def)
  have finb: "finite (dom b)" using fin by (simp add: b_def)
  have s1: "stored_sum b1 + unat fb = stored_sum b + unat (fb - v)"
    unfolding b1_def fb by (rule stored_sum_upd [OF finb])
  have fin1: "finite (dom b1)" using finb by (simp add: b1_def)
  have tble: "unat tb \<le> stored_sum b1"
    unfolding tb_def by (rule stored_le_sum [OF fin1])
  have total: "stored_sum b = unat (total_supply s)" using sum by (simp add: sum_balances_def b_def)
  have lt: "unat (total_supply s) < 2 ^ 64" using unsigned_less [of "total_supply s", where ?'a = nat] by simp
  have "unat tb + unat v \<le> stored_sum b" using s1 sub le tble by linarith
  then have add: "unat (tb + v) = unat tb + unat v"
    using total lt by (intro unat_add_no_wrap [where n = "stored_sum b"]) auto
  have s2: "stored_sum b2 + unat tb = stored_sum b1 + unat (tb + v)"
    unfolding b2_def tb_def by (rule stored_sum_upd [OF fin1])
  have eq: "stored_sum b2 = stored_sum b" using s1 s2 sub le add tble by linarith
  have st: "snd (transfer_impl args s) =
      emit ''token.transfer'' (transfer_event (tr_from args) (tr_to args) (tr_value args))
        [tr_to args, tr_from args] (s\<lparr>balances := b2\<rparr>)"
    using True
    by (simp add: transfer_impl_def Let_def b2_def tb_def b1_def fb_def v_def b_def balance_of_def)
  show ?thesis
    using eq total finb
    by (simp add: st emit_def sum_balances_def total_supply_def b2_def b1_def)
qed

lemma mint_impl_invariant:
  assumes fin: "finite (dom (balances s))"
      and sum: "sum_balances s = unat (total_supply s)"
      and cap: "total_supply s \<le> max_supply"
  shows "finite (dom (balances (snd (mint_impl max_supply args s)))) \<and>
         sum_balances (snd (mint_impl max_supply args s)) = unat (total_supply (snd (mint_impl max_supply args s))) \<and>
         total_supply (snd (mint_impl max_supply args s)) \<le> max_supply"
proof (cases "mi_value args \<le> max_supply \<and> total_supply s \<le> max_supply - mi_value args")
  case False
  then show ?thesis using fin sum cap
    by (auto simp add: mint_impl_def safe_sub_def Let_def not_le)
next
  case True
  define b where "b = balances s"
  define v where "v = mi_value args"
  define sup where "sup = total_supply s"
  define tb where "tb = (case b (mi_to args) of None \<Rightarrow> 0 | Some w \<Rightarrow> w)"
  define b1 where "b1 = b(mi_to args \<mapsto> tb + v)"
  have finb: "finite (dom b)" using fin by (simp add: b_def)
  have total: "stored_sum b = unat sup" using sum by (simp add: sum_balances_def b_def sup_def)
  have vle: "unat v \<le> unat max_supply" using True by (simp add: v_def word_le_nat_alt)
  have "unat sup \<le> unat (max_supply - v)" using True by (simp add: v_def sup_def word_le_nat_alt)
  also have "unat (max_supply - v) = unat max_supply - unat v"
    using True by (simp add: unat_sub v_def)
  finally have room: "unat sup + unat v \<le> unat max_supply" using vle by linarith
  have lt: "unat max_supply < 2 ^ 64" using unsigned_less [of max_supply, where ?'a = nat] by simp
  have supadd: "unat (sup + v) = unat sup + unat v"
    using room lt by (rule unat_add_no_wrap)
  have tble: "unat tb \<le> stored_sum b" unfolding tb_def by (rule stored_le_sum [OF finb])
  have "unat tb + unat v \<le> unat max_supply" using tble total room by linarith
  then have tbadd: "unat (tb + v) = unat tb + unat v"
    using lt by (rule unat_add_no_wrap)
  have s1: "stored_sum b1 + unat tb = stored_sum b + unat (tb + v)"
    unfolding b1_def tb_def by (rule stored_sum_upd [OF finb])
  have eq: "stored_sum b1 = unat (sup + v)" using s1 tbadd supadd total by linarith
  have capn: "sup + v \<le> max_supply" using room supadd by (simp add: word_le_nat_alt)
  have st: "snd (mint_impl max_supply args s) =
      emit ''token.mint'' (mint_event (mi_to args) (mi_value args)) [mi_to args]
        (s\<lparr>balances := b1, supply_obj := Some (sup + v)\<rparr>)"
  proof -
    have "\<not> max_supply < mi_value args" using True by (simp add: not_less)
    then show ?thesis using True
      by (simp add: mint_impl_def safe_sub_def Let_def b1_def tb_def v_def b_def sup_def balance_of_def)
  qed
  show ?thesis
    using eq capn finb
    by (simp add: st emit_def sum_balances_def total_supply_def b1_def)
qed

lemma ledger_invariant_cong:
  "balances s' = balances s \<Longrightarrow> supply_obj s' = supply_obj s \<Longrightarrow>
   ledger_invariant m s' = ledger_invariant m s"
  by (simp add: ledger_invariant_def sum_balances_def total_supply_def)

lemma check_authority_invariant:
  "ledger_invariant m (snd (check_authority env account acc amount s)) = ledger_invariant m s"
  by (rule ledger_invariant_cong) (simp_all add: check_authority_frame)

lemma approve_invariant:
  "ledger_invariant m s \<Longrightarrow> ledger_invariant m (snd (approve env args s))"
proof -
  assume inv: "ledger_invariant m s"
  obtain r s1 where ca: "check_authority env (ap_owner args) False 0 s = (r, s1)"
    by (cases "check_authority env (ap_owner args) False 0 s")
  have inv1: "ledger_invariant m s1"
    using check_authority_invariant [of m env "ap_owner args" False 0 s] inv ca by simp
  have "ledger_invariant m (snd (approve_impl args s1)) = ledger_invariant m s1"
    by (rule ledger_invariant_cong)
       (simp_all add: approve_impl_def emit_def split: sum.splits)
  then show ?thesis using inv1 ca
    by (simp add: approve_def split: sum.splits)
qed

lemma transfer_invariant:
  "ledger_invariant m s \<Longrightarrow> ledger_invariant m (snd (transfer env args s))"
proof -
  assume inv: "ledger_invariant m s"
  obtain r s1 where ca: "check_authority env (tr_from args) True (tr_value args) s = (r, s1)"
    by (cases "check_authority env (tr_from args) True (tr_value args) s")
  have inv1: "ledger_invariant m s1"
    using check_authority_invariant [of m env "tr_from args" True "tr_value args" s] inv ca by simp
  have "ledger_invariant m (snd (transfer_impl args s1))"
    using inv1 transfer_impl_invariant [of s1 args] by (simp add: ledger_invariant_def)
  then show ?thesis using inv1 ca
    by (simp add: transfer_def split: sum.splits)
qed

lemma mint_invariant:
  "ledger_invariant m s \<Longrightarrow> ledger_invariant m (snd (mint m env args s))"
proof -
  assume inv: "ledger_invariant m s"
  obtain r s1 where ca: "check_authority env (contractId env) False 0 s = (r, s1)"
    by (cases "check_authority env (contractId env) False 0 s")
  have inv1: "ledger_invariant m s1"
    using check_authority_invariant [of m env "contractId env" False 0 s] inv ca by simp
  have "ledger_invariant m (snd (mint_impl m args s1))"
    using inv1 mint_impl_invariant [of s1 m args] by (simp add: ledger_invariant_def)
  then show ?thesis using inv1 ca
    by (simp add: mint_def split: sum.splits)
qed

lemma run_operation_invariant:
  "ledger_invariant m s \<Longrightarrow> ledger_invariant m (snd (run_operation m env oper s))"
  by (cases oper) (simp_all add: approve_invariant transfer_invariant mint_invariant burn_def)

lemma call_contract_snd:
  "snd (call_contract f s) = (case fst (f s) of Inl e \<Rightarrow> s | Inr r \<Rightarrow> snd (f s))"
  by (simp add: call_contract_def split: prod.splits sum.splits)

lemma init_invariant: "ledger_invariant m init_state"
  by (simp add: ledger_invariant_def init_state_def sum_balances_def stored_sum_def total_supply_def)

lemma reachable_invariant: "reachable m s \<Longrightarrow> ledger_invariant m s"
proof (induction rule: reachable.induct)
  case reachable_init
  show ?case by (rule init_invariant)
next
  case (reachable_step s env oper)
  then show ?case
    using run_operation_invariant [of m s env oper]
    by (simp add: call_contract_snd split: sum.splits)
qed

text \<open>
  Claim C1. In every reachable state (from the empty storage, by any sequence of approve,
  transfer, mint and burn calls, under any caller and any signatures) the stored balances
  sum to the total supply, and the total supply is at most the maximum supply.
\<close>

theorem supply_conservation:
  "reachable max_supply s \<Longrightarrow>
     finite (dom (balances s)) \<and> sum_balances s = unat (total_supply s) \<and>
     total_supply s \<le> max_supply"
  using reachable_invariant [of max_supply s] by (simp add: ledger_invariant_def)

section \<open>Allowance keys and the two authority paths\<close>

lemma set_bytes_start:
  "length a \<le> 50 \<Longrightarrow> set_bytes (replicate 50 0) a 0 = Inr (a @ replicate (50 - length a) 0)"
  by (simp add: set_bytes_def)

lemma allowance_key_addresses:
  assumes "length owner = 25" "length spender = 25"
  shows "allowance_key owner spender = Inr (owner @ spender)"
  using assms by (simp add: allowance_key_def set_bytes_def)

lemma allowance_key_length:
  "allowance_key owner spender = Inr key \<Longrightarrow> length key = 50"
  by (auto simp add: allowance_key_def set_bytes_def split: if_splits)

lemma allowance_key_defined:
  "length owner \<le> 50 \<Longrightarrow> length spender \<le> 25 \<Longrightarrow> \<exists>key. allowance_key owner spender = Inr key"
  by (simp add: allowance_key_def set_bytes_def)

lemma check_authority_key:
  "check_authority env account True amount s =
     (case calling_contract env of
        Some c \<Rightarrow>
          (case allowance_key account c of
             Inl e \<Rightarrow> (Inl e, s)
           | Inr key \<Rightarrow>
               (case allowances s key of
                  Some a \<Rightarrow>
                    if amount \<le> a
                    then (Inr True, s\<lparr>allowances := (allowances s)(key \<mapsto> a - amount)\<rparr>)
                    else (Inr (account = c), s)
                | None \<Rightarrow> (Inr (account = c), s)))
      | None \<Rightarrow>
          (case set_bytes (replicate 50 0) account 0 of
             Inl e \<Rightarrow> (Inl e, s)
           | Inr key \<Rightarrow>
               (case getSigners env of
                  Inl e \<Rightarrow> (Inl e, s)
                | Inr signers \<Rightarrow> (Inr (account \<in> set signers), s))))"
  by (simp add: check_authority_def allowance_key_def signed_by_iff split: sum.splits option.splits)

text \<open>
  Claim C7. For all arguments, every state and every caller, \<open>burn\<close> returns success
  and gives back the state it was given: no authority check can influence it, and no
  balance, allowance, supply or event changes.
\<close>

theorem burn_disabled:
  "burn env args s = (Inr (), s) \<and> call_contract (burn env args) s = (Inr (), s)"
  by (simp add: burn_def call_contract_def)

text \<open>
  Claim C3. Without an immediate calling contract, \<open>check_authority\<close> answers whether
  the account is among the signers recovered from the signatures of the transaction; it
  succeeds exactly when it is. The signers are the addresses of the public keys recovered
  from each signature and the transaction id, in order; a signature without a recoverable
  key aborts the call. The allowance table is neither read (the answer is the same for
  every table) nor written, whatever \<open>acceptAllowances\<close> and the amount are.
\<close>

theorem check_authority_direct:
  assumes "calling_contract env = None"
      and "acceptAllowances \<longrightarrow> length account \<le> 50"
  shows "check_authority env account acceptAllowances amount s =
           (case getSigners env of
              Inl e \<Rightarrow> (Inl e, s)
            | Inr signers \<Rightarrow> (Inr (account \<in> set signers), s))
         \<and> (fst (check_authority env account acceptAllowances amount s) = Inr True
              \<longleftrightarrow> (\<exists>signers. getSigners env = Inr signers \<and> account \<in> set signers))
         \<and> (\<forall>table. fst (check_authority env account acceptAllowances amount (s\<lparr>allowances := table\<rparr>))
              = fst (check_authority env account acceptAllowances amount s))
         \<and> allowances (snd (check_authority env account acceptAllowances amount s)) = allowances s
         \<and> getSigners env =
             (if list_all (\<lambda>sg. recoverPublicKey env sg (tx_id env) \<noteq> None) (signatures env)
              then Inr (map (\<lambda>sg. addressFromPublicKey env (the (recoverPublicKey env sg (tx_id env))))
                         (signatures env))
              else Inl UnexpectedNull)"
proof -
  have sg: "getSigners env =
             (if list_all (\<lambda>sg. recoverPublicKey env sg (tx_id env) \<noteq> None) (signatures env)
              then Inr (map (\<lambda>sg. addressFromPublicKey env (the (recoverPublicKey env sg (tx_id env))))
                         (signatures env))
              else Inl UnexpectedNull)"
    unfolding getSigners_def by (rule recover_signers_map)
  have ca: "check_authority env account acceptAllowances amount t =
           (case getSigners env of
              Inl e \<Rightarrow> (Inl e, t)
            | Inr signers \<Rightarrow> (Inr (account \<in> set signers), t))" for t
  proof (cases acceptAllowances)
    case True
    then show ?thesis using assms
      by (simp add: check_authority_key set_bytes_start split: sum.splits)
  next
    case False
    then show ?thesis using assms
      by (simp add: check_authority_no_allowances split: sum.splits)
  qed
  have iff: "fst (check_authority env account acceptAllowances amount s) = Inr True
              \<longleftrightarrow> (\<exists>signers. getSigners env = Inr signers \<and> account \<in> set signers)"
    by (cases "getSigners env") (simp_all add: ca)
  have indep: "\<forall>table. fst (check_authority env account acceptAllowances amount (s\<lparr>allowances := table\<rparr>))
              = fst (check_authority env account acceptAllowances amount s)"
    by (cases "getSigners env") (simp_all add: ca)
  have keep: "allowances (snd (check_authority env account acceptAllowances amount s)) = allowances s"
    by (cases "getSigners env") (simp_all add: ca)
  show ?thesis using ca [of s] iff indep keep sg by (simp only: simp_thms)
qed

text \<open>
  Claim C2. With an immediate calling contract \<open>c\<close> (an address, so at most 25 bytes),
  \<open>check_authority\<close> succeeds exactly when either allowances are accepted and the record
  keyed (account, \<open>c\<close>) holds at least the amount, or \<open>c\<close> is the account. The
  allowance is tried first: when it covers the amount, the record is decreased by the
  amount and stored; in every other case the state is returned as it was. The signatures
  of the transaction play no part: the outcome is the same for every signature list,
  transaction id and recovery function, so a caller that signed but has no allowance and
  is not the account is rejected.
\<close>

theorem check_authority_contract:
  assumes "calling_contract env = Some c"
      and "length c \<le> 25"
  shows "(fst (check_authority env account acceptAllowances amount s) = Inr True
            \<longleftrightarrow> (acceptAllowances \<and>
                  (\<exists>key a. allowance_key account c = Inr key \<and> allowances s key = Some a \<and> amount \<le> a))
                \<or> account = c)
         \<and> (\<forall>key a. acceptAllowances \<and> allowance_key account c = Inr key \<and>
                  allowances s key = Some a \<and> amount \<le> a \<longrightarrow>
               check_authority env account acceptAllowances amount s =
                 (Inr True, s\<lparr>allowances := (allowances s)(key \<mapsto> a - amount)\<rparr>))
         \<and> (\<not> (acceptAllowances \<and>
                  (\<exists>key a. allowance_key account c = Inr key \<and> allowances s key = Some a \<and> amount \<le> a)) \<longrightarrow>
               snd (check_authority env account acceptAllowances amount s) = s)
         \<and> (\<forall>sigs tx rec adr.
               check_authority (env\<lparr>signatures := sigs, tx_id := tx, recoverPublicKey := rec,
                                     addressFromPublicKey := adr\<rparr>) account acceptAllowances amount s
               = check_authority env account acceptAllowances amount s)"
proof -
  have cc: "calling_contract (env\<lparr>signatures := sigs, tx_id := tx, recoverPublicKey := rec,
      addressFromPublicKey := adr\<rparr>) = Some c" for sigs tx rec adr
    using assms(1) by (simp add: calling_contract_def)
  have self: "account = c \<Longrightarrow> \<exists>key. allowance_key account c = Inr key"
    using assms(2) by (intro allowance_key_defined) simp_all
  show ?thesis
  proof (cases acceptAllowances)
    case False
    then show ?thesis using assms(1) cc
      by (simp add: check_authority_no_allowances)
  next
    case True
    show ?thesis
    proof (cases "allowance_key account c")
      case (Inl e)
      then have "account \<noteq> c" using self by auto
      then show ?thesis using True Inl assms(1) cc
        by (simp add: check_authority_key)
    next
      case (Inr key)
      then show ?thesis using True assms(1) cc
        by (auto simp add: check_authority_key split: option.splits)
    qed
  qed
qed

section \<open>Evaluations on concrete inputs\<close>

lemma minted_eq:
  "minted = \<lparr>supply_obj = Some 123, balances = [addr_a \<mapsto> 123], allowances = Map.empty,
     events = [\<lparr>ev_name = ''token.mint'', ev_data = mint_event addr_a 123, ev_impacted = [addr_a]\<rparr>]\<rparr>"
  by (simp add: minted_def call_contract_def mint_def check_authority_def calling_contract_def
      test_env_def token_id_def mint_impl_def safe_sub_def Let_def total_supply_def init_state_def
      balance_of_def emit_def)

theorem supply_conservation_witness:
  "reachable 1000 minted \<and> finite (dom (balances minted)) \<and>
   sum_balances minted = unat (total_supply minted) \<and> total_supply minted \<le> 1000 \<and>
   total_supply minted = 123 \<and> balance_of minted addr_a = 123"
proof -
  have r: "reachable 1000 minted"
    unfolding minted_def by (rule reachable_step [OF reachable_init])
  show ?thesis
    using r supply_conservation [OF r]
    by (simp add: minted_eq total_supply_def balance_of_def)
qed

section \<open>The operations under a successful authority check\<close>

lemma check_authority_balance_of:
  "balance_of (snd (check_authority env account acc amount s)) a = balance_of s a \<and>
   total_supply (snd (check_authority env account acc amount s)) = total_supply s"
  by (simp add: balance_of_def total_supply_def check_authority_frame)

lemma check_authority_no_allowances_state:
  "snd (check_authority env account False amount s) = s \<and>
   fst (check_authority env account False amount s) = fst (check_authority env account False amount s')"
  by (simp add: check_authority_no_allowances split: option.splits sum.splits)

lemma transfer_authorized:
  assumes "fst (check_authority env (tr_from args) True (tr_value args) s) = Inr True"
  shows "transfer env args s =
           transfer_impl args (snd (check_authority env (tr_from args) True (tr_value args) s))"
  using assms
  by (cases "check_authority env (tr_from args) True (tr_value args) s") (simp add: transfer_def)

lemma mint_authorized:
  assumes "fst (check_authority env (contractId env) False 0 s) = Inr True"
  shows "mint m env args s = mint_impl m args s"
  using assms check_authority_no_allowances_state [of env "contractId env" 0 s s]
  by (cases "check_authority env (contractId env) False 0 s") (simp add: mint_def)

lemma approve_authorized:
  assumes "fst (check_authority env (ap_owner args) False 0 s) = Inr True"
  shows "approve env args s = approve_impl args s"
  using assms check_authority_no_allowances_state [of env "ap_owner args" 0 s s]
  by (cases "check_authority env (ap_owner args) False 0 s") (simp add: approve_def)

lemma transfer_impl_allowances:
  "allowances (snd (transfer_impl args s)) = allowances s"
  by (simp add: transfer_impl_def Let_def emit_def)

lemma mint_impl_allowances:
  "allowances (snd (mint_impl m args s)) = allowances s"
  by (simp add: mint_impl_def Let_def emit_def safe_sub_def split: sum.splits)

lemma mint_impl_refused:
  assumes "m < mi_value args \<or> m - mi_value args < total_supply s"
  shows "mint_impl m args s = (Inl (Revert ''mint would overflow supply''), s)"
  using assms by (auto simp add: mint_impl_def safe_sub_def Let_def not_le)

lemma mint_impl_accepted:
  assumes "\<not> (m < mi_value args \<or> m - mi_value args < total_supply s)"
  shows "mint_impl m args s =
     (Inr (), emit ''token.mint'' (mint_event (mi_to args) (mi_value args)) [mi_to args]
        (s\<lparr>balances := (balances s)(mi_to args \<mapsto> balance_of s (mi_to args) + mi_value args),
           supply_obj := Some (total_supply s + mi_value args)\<rparr>))"
  using assms by (auto simp add: mint_impl_def safe_sub_def Let_def not_le not_less)

lemma supply_check_nat:
  fixes m v sup :: u64
  shows "(m < v \<or> m - v < sup) \<longleftrightarrow> unat m < unat sup + unat v"
proof (cases "m < v")
  case True
  then show ?thesis by (simp add: word_less_nat_alt)
next
  case False
  then have "v \<le> m" by simp
  then have "unat (m - v) = unat m - unat v" and "unat v \<le> unat m"
    by (simp_all add: unat_sub word_le_nat_alt)
  then show ?thesis using False by (auto simp add: word_less_nat_alt)
qed

section \<open>Allowances\<close>

text \<open>
  Claim C4. On the contract path with allowances accepted, the allowance is spent exactly
  when a record keyed (owner, caller) exists and holds at least the amount: then the
  record decreases by exactly the amount, and otherwise the state is returned as it was.
  No other code subtracts from an allowance: an authority check that does not accept
  allowances returns the state unchanged, \<open>_transfer\<close>, \<open>_mint\<close> and \<open>burn\<close> never
  write the allowance table, so the table after \<open>transfer\<close> is the one the authority
  check left, and \<open>_approve\<close> only binds a key to the value it is given.
\<close>

theorem allowance_spent_only_by_authority:
  assumes "calling_contract env = Some c"
      and "allowance_key owner c = Inr key"
  shows "(\<forall>a. allowances s key = Some a \<and> amount \<le> a \<longrightarrow>
            check_authority env owner True amount s =
              (Inr True, s\<lparr>allowances := (allowances s)(key \<mapsto> a - amount)\<rparr>)
            \<and> unat (a - amount) = unat a - unat amount)
         \<and> (\<not> (\<exists>a. allowances s key = Some a \<and> amount \<le> a) \<longrightarrow>
            check_authority env owner True amount s = (Inr (owner = c), s))
         \<and> snd (check_authority env owner False amount s) = s
         \<and> allowances (snd (transfer_impl targs s)) = allowances s
         \<and> allowances (snd (mint_impl m margs s)) = allowances s
         \<and> allowances (snd (burn env bargs s)) = allowances s
         \<and> allowances (snd (approve_impl aargs s)) =
             (case allowance_key (ap_owner aargs) (ap_spender aargs) of
                Inl e \<Rightarrow> allowances s
              | Inr k \<Rightarrow> (allowances s)(k \<mapsto> ap_value aargs))
         \<and> allowances (snd (transfer env targs s)) =
             allowances (snd (check_authority env (tr_from targs) True (tr_value targs) s))"
proof -
  have spend: "\<forall>a. allowances s key = Some a \<and> amount \<le> a \<longrightarrow>
            check_authority env owner True amount s =
              (Inr True, s\<lparr>allowances := (allowances s)(key \<mapsto> a - amount)\<rparr>)
            \<and> unat (a - amount) = unat a - unat amount"
    using assms by (simp add: check_authority_key unat_sub)
  have keep: "\<not> (\<exists>a. allowances s key = Some a \<and> amount \<le> a) \<longrightarrow>
            check_authority env owner True amount s = (Inr (owner = c), s)"
    using assms by (auto simp add: check_authority_key split: option.splits)
  have tr: "allowances (snd (transfer env targs s)) =
             allowances (snd (check_authority env (tr_from targs) True (tr_value targs) s))"
    by (cases "check_authority env (tr_from targs) True (tr_value targs) s")
       (simp add: transfer_def transfer_impl_allowances split: sum.splits)
  have ap: "allowances (snd (approve_impl aargs s)) =
             (case allowance_key (ap_owner aargs) (ap_spender aargs) of
                Inl e \<Rightarrow> allowances s
              | Inr k \<Rightarrow> (allowances s)(k \<mapsto> ap_value aargs))"
    by (simp add: approve_impl_def emit_def split: sum.splits)
  have rest: "snd (check_authority env owner False amount s) = s
         \<and> allowances (snd (transfer_impl targs s)) = allowances s
         \<and> allowances (snd (mint_impl m margs s)) = allowances s
         \<and> allowances (snd (burn env bargs s)) = allowances s"
    by (simp add: check_authority_no_allowances_state transfer_impl_allowances
        mint_impl_allowances burn_def)
  show ?thesis
    using spend keep tr ap rest by (simp only: simp_thms)
qed

text \<open>
  Claim C8. An authorized \<open>approve\<close> binds the allowance keyed (owner, spender) to the
  given value, whatever was stored before, and emits one \<open>token.approve\<close> event with
  impacted list [spender, owner]. Any number of repetitions with the same arguments leaves
  the allowance table as one call does, one more event each, and the allowance query
  answers the value.
\<close>

theorem approve_overwrites:
  assumes "fst (check_authority env (ap_owner args) False 0 s) = Inr True"
      and "allowance_key (ap_owner args) (ap_spender args) = Inr key"
  shows "approve env args s =
           (Inr (), s\<lparr>allowances := (allowances s)(key \<mapsto> ap_value args),
                      events := events s @
                        [\<lparr>ev_name = ''token.approve'',
                          ev_data = approve_event (ap_owner args) (ap_spender args) (ap_value args),
                          ev_impacted = [ap_spender args, ap_owner args]\<rparr>]\<rparr>)
         \<and> repeat_call (Suc n) (approve env args) s =
           (Inr (), s\<lparr>allowances := (allowances s)(key \<mapsto> ap_value args),
                      events := events s @ replicate (Suc n)
                        \<lparr>ev_name = ''token.approve'',
                          ev_data = approve_event (ap_owner args) (ap_spender args) (ap_value args),
                          ev_impacted = [ap_spender args, ap_owner args]\<rparr>\<rparr>)
         \<and> allowance \<lparr>al_owner = ap_owner args, al_spender = ap_spender args\<rparr>
              (snd (repeat_call (Suc n) (approve env args) s)) = Inr (ap_value args)"
proof -
  define ev where "ev = \<lparr>ev_name = ''token.approve'',
      ev_data = approve_event (ap_owner args) (ap_spender args) (ap_value args),
      ev_impacted = [ap_spender args, ap_owner args]\<rparr>"
  define al where "al = (allowances s)(key \<mapsto> ap_value args)"
  have once: "approve env args t =
      (Inr (), t\<lparr>allowances := (allowances t)(key \<mapsto> ap_value args), events := events t @ [ev]\<rparr>)"
    for t
  proof -
    have "fst (check_authority env (ap_owner args) False 0 t) = Inr True"
      using assms(1) check_authority_no_allowances_state [of env "ap_owner args" 0 t s] by simp
    then show ?thesis
      using assms(2) by (simp add: approve_authorized approve_impl_def emit_def ev_def)
  qed
  have many: "repeat_call (Suc k) (approve env args) t =
      (Inr (), t\<lparr>allowances := (allowances t)(key \<mapsto> ap_value args),
                 events := events t @ replicate (Suc k) ev\<rparr>)"
    for k t
  proof (induction k arbitrary: t)
    case 0
    show ?case by (simp add: once call_contract_def del: fun_upd_apply)
  next
    case (Suc k)
    define t1 where "t1 = t\<lparr>allowances := (allowances t)(key \<mapsto> ap_value args),
                            events := events t @ [ev]\<rparr>"
    have "repeat_call (Suc (Suc k)) (approve env args) t = repeat_call (Suc k) (approve env args) t1"
      by (simp add: once call_contract_def t1_def del: fun_upd_apply)
    also have "\<dots> = (Inr (), t1\<lparr>allowances := (allowances t1)(key \<mapsto> ap_value args),
        events := events t1 @ replicate (Suc k) ev\<rparr>)"
      by (rule Suc.IH)
    also have "\<dots> = (Inr (), t\<lparr>allowances := (allowances t)(key \<mapsto> ap_value args),
        events := events t @ replicate (Suc (Suc k)) ev\<rparr>)"
      by (simp add: t1_def)
    finally show ?case .
  qed
  have rep: "repeat_call (Suc n) (approve env args) s =
      (Inr (), s\<lparr>allowances := al, events := events s @ replicate (Suc n) ev\<rparr>)"
    using many [of n s] by (simp add: al_def)
  have q: "allowance \<lparr>al_owner = ap_owner args, al_spender = ap_spender args\<rparr>
      (snd (repeat_call (Suc n) (approve env args) s)) = Inr (ap_value args)"
    unfolding rep using assms(2) by (simp add: allowance_def al_def)
  show ?thesis
    using once [of s] rep q unfolding ev_def al_def by (simp only: simp_thms)
qed

section \<open>Transfers and mints\<close>

text \<open>
  Claim C5. When the authority check of a \<open>transfer\<close> succeeds but the balance of
  \<open>from\<close> is below the value, the call reverts with the insufficient-balance message,
  not with the authorization message. The revert happens after the authority check has
  stored what it spent; the host discards that write with the failed call, so the state
  after the call, balances and allowances alike, is the state before it.
\<close>

theorem transfer_insufficient_balance:
  assumes "fst (check_authority env (tr_from args) True (tr_value args) s) = Inr True"
      and "balance_of s (tr_from args) < tr_value args"
  shows "transfer env args s =
           (Inl (Revert ''account 'from' has insufficient balance''),
            snd (check_authority env (tr_from args) True (tr_value args) s))
         \<and> call_contract (transfer env args) s =
           (Inl (Revert ''account 'from' has insufficient balance''), s)"
proof -
  define s1 where "s1 = snd (check_authority env (tr_from args) True (tr_value args) s)"
  have "balance_of s1 (tr_from args) = balance_of s (tr_from args)"
    unfolding s1_def by (simp add: check_authority_balance_of)
  then have "\<not> tr_value args \<le> balance_of s1 (tr_from args)"
    using assms(2) by (simp add: not_le)
  then have "transfer_impl args s1 = (Inl (Revert ''account 'from' has insufficient balance''), s1)"
    by (simp add: transfer_impl_def)
  then have "transfer env args s = (Inl (Revert ''account 'from' has insufficient balance''), s1)"
    using transfer_authorized [OF assms(1)] by (simp add: s1_def)
  then show ?thesis by (simp add: call_contract_def s1_def)
qed

text \<open>
  Claim C6. An authorized \<open>mint\<close> reverts with the supply-overflow message exactly when
  the value exceeds the maximum supply or the supply exceeds the maximum minus the value,
  that is when supply plus value, computed without wrap-around, exceeds the maximum; the
  state is then returned unchanged. Otherwise it succeeds, the balance of \<open>to\<close> and the
  supply grow by the value (the supply without wrap-around, and so does the balance in
  every reachable state), and no other balance changes. Minting the largest 64-bit value
  on a nonzero supply always fails.
\<close>

theorem mint_supply_check:
  assumes "fst (check_authority env (contractId env) False 0 s) = Inr True"
  shows "(fst (mint m env args s) = Inl (Revert ''mint would overflow supply'')
            \<longleftrightarrow> m < mi_value args \<or> m - mi_value args < total_supply s)
         \<and> ((m < mi_value args \<or> m - mi_value args < total_supply s)
            \<longleftrightarrow> unat m < unat (total_supply s) + unat (mi_value args))
         \<and> (m < mi_value args \<or> m - mi_value args < total_supply s \<longrightarrow>
              mint m env args s = (Inl (Revert ''mint would overflow supply''), s))
         \<and> (\<not> (m < mi_value args \<or> m - mi_value args < total_supply s) \<longrightarrow>
              fst (mint m env args s) = Inr ()
              \<and> balance_of (snd (mint m env args s)) (mi_to args)
                  = balance_of s (mi_to args) + mi_value args
              \<and> (\<forall>a. a \<noteq> mi_to args \<longrightarrow> balance_of (snd (mint m env args s)) a = balance_of s a)
              \<and> total_supply (snd (mint m env args s)) = total_supply s + mi_value args
              \<and> unat (total_supply (snd (mint m env args s)))
                  = unat (total_supply s) + unat (mi_value args)
              \<and> (reachable m s \<longrightarrow>
                   unat (balance_of (snd (mint m env args s)) (mi_to args))
                     = unat (balance_of s (mi_to args)) + unat (mi_value args)))
         \<and> (mi_value args = 0xFFFFFFFFFFFFFFFF \<and> total_supply s \<noteq> 0 \<longrightarrow>
              mint m env args s = (Inl (Revert ''mint would overflow supply''), s))"
proof -
  let ?over = "m < mi_value args \<or> m - mi_value args < total_supply s"
  note mint_eq = mint_authorized [OF assms, of m args]
  have nat: "?over \<longleftrightarrow> unat m < unat (total_supply s) + unat (mi_value args)"
    by (rule supply_check_nat)
  have refused: "?over \<longrightarrow> mint m env args s = (Inl (Revert ''mint would overflow supply''), s)"
    by (simp add: mint_eq mint_impl_refused)
  have st: "\<not> ?over \<Longrightarrow> mint m env args s =
     (Inr (), emit ''token.mint'' (mint_event (mi_to args) (mi_value args)) [mi_to args]
        (s\<lparr>balances := (balances s)(mi_to args \<mapsto> balance_of s (mi_to args) + mi_value args),
           supply_obj := Some (total_supply s + mi_value args)\<rparr>))"
    unfolding mint_eq by (rule mint_impl_accepted)
  have iff: "fst (mint m env args s) = Inl (Revert ''mint would overflow supply'') \<longleftrightarrow> ?over"
  proof (cases ?over)
    case True then show ?thesis using refused by simp
  next
    case False then show ?thesis using st [OF False] by simp
  qed
  have lt: "unat m < 2 ^ 64" using unsigned_less [of m, where ?'a = nat] by simp
  have supadd: "\<not> ?over \<Longrightarrow>
      unat (total_supply s + mi_value args) = unat (total_supply s) + unat (mi_value args)"
  proof -
    assume "\<not> ?over"
    then have "unat (total_supply s) + unat (mi_value args) \<le> unat m" using nat by simp
    then show ?thesis using lt by (rule unat_add_no_wrap)
  qed
  have baladd: "\<not> ?over \<Longrightarrow> reachable m s \<Longrightarrow>
      unat (balance_of s (mi_to args) + mi_value args)
        = unat (balance_of s (mi_to args)) + unat (mi_value args)"
  proof -
    assume no: "\<not> ?over" and r: "reachable m s"
    have inv: "ledger_invariant m s" using r by (rule reachable_invariant)
    have "unat (balance_of s (mi_to args)) \<le> stored_sum (balances s)"
      unfolding balance_of_def using inv by (intro stored_le_sum) (simp add: ledger_invariant_def)
    then have "unat (balance_of s (mi_to args)) \<le> unat (total_supply s)"
      using inv by (simp add: ledger_invariant_def sum_balances_def)
    then have "unat (balance_of s (mi_to args)) + unat (mi_value args) \<le> unat m"
      using no nat by simp
    then show ?thesis using lt by (rule unat_add_no_wrap)
  qed
  have ok: "\<not> ?over \<longrightarrow>
              fst (mint m env args s) = Inr ()
              \<and> balance_of (snd (mint m env args s)) (mi_to args)
                  = balance_of s (mi_to args) + mi_value args
              \<and> (\<forall>a. a \<noteq> mi_to args \<longrightarrow> balance_of (snd (mint m env args s)) a = balance_of s a)
              \<and> total_supply (snd (mint m env args s)) = total_supply s + mi_value args
              \<and> unat (total_supply (snd (mint m env args s)))
                  = unat (total_supply s) + unat (mi_value args)
              \<and> (reachable m s \<longrightarrow>
                   unat (balance_of (snd (mint m env args s)) (mi_to args))
                     = unat (balance_of s (mi_to args)) + unat (mi_value args))"
  proof
    assume no: "\<not> ?over"
    show "fst (mint m env args s) = Inr ()
              \<and> balance_of (snd (mint m env args s)) (mi_to args)
                  = balance_of s (mi_to args) + mi_value args
              \<and> (\<forall>a. a \<noteq> mi_to args \<longrightarrow> balance_of (snd (mint m env args s)) a = balance_of s a)
              \<and> total_supply (snd (mint m env args s)) = total_supply s + mi_value args
              \<and> unat (total_supply (snd (mint m env args s)))
                  = unat (total_supply s) + unat (mi_value args)
              \<and> (reachable m s \<longrightarrow>
                   unat (balance_of (snd (mint m env args s)) (mi_to args))
                     = unat (balance_of s (mi_to args)) + unat (mi_value args))"
      using supadd [OF no] baladd [OF no]
      by (simp add: st [OF no] emit_def balance_of_def total_supply_def)
  qed
  have big: "mi_value args = 0xFFFFFFFFFFFFFFFF \<and> total_supply s \<noteq> 0 \<longrightarrow> ?over"
  proof
    assume a: "mi_value args = 0xFFFFFFFFFFFFFFFF \<and> total_supply s \<noteq> 0"
    then have "unat (mi_value args) = 2 ^ 64 - 1" by simp
    moreover have "0 < unat (total_supply s)" using a by (simp add: unat_gt_0)
    ultimately have "unat m < unat (total_supply s) + unat (mi_value args)" using lt by simp
    then show ?over using nat by simp
  qed
  show ?thesis using iff nat refused ok big by blast
qed

text \<open>
  Claim C9. A \<open>transfer\<close> of value 0 through a calling contract \<open>c\<close> other than
  \<open>from\<close> passes the authority check, and completes, exactly when a record keyed
  (\<open>from\<close>, \<open>c\<close>) is stored, a stored 0 included; without the record it reverts with the
  authorization message. The allowance query answers 0 both for the absent record and for
  the stored 0.
\<close>

theorem transfer_zero_needs_record:
  assumes "calling_contract env = Some c"
      and "c \<noteq> tr_from args"
      and "tr_value args = 0"
      and "allowance_key (tr_from args) c = Inr key"
  shows "(fst (check_authority env (tr_from args) True (tr_value args) s) = Inr True
            \<longleftrightarrow> allowances s key \<noteq> None)
         \<and> (fst (transfer env args s) = Inr () \<longleftrightarrow> allowances s key \<noteq> None)
         \<and> (allowances s key = None \<longrightarrow>
              fst (transfer env args s) = Inl (Revert ''from has not authorized transfer''))
         \<and> (allowances s key = Some 0 \<longrightarrow> fst (transfer env args s) = Inr ())
         \<and> (allowances s key = None \<or> allowances s key = Some 0 \<longrightarrow>
              allowance \<lparr>al_owner = tr_from args, al_spender = c\<rparr> s = Inr 0)"
proof (cases "allowances s key")
  case None
  then have "check_authority env (tr_from args) True (tr_value args) s = (Inr False, s)"
    using assms by (auto simp add: check_authority_key)
  then show ?thesis using None assms(4)
    by (simp add: transfer_def allowance_def)
next
  case (Some a)
  have ca: "check_authority env (tr_from args) True (tr_value args) s =
      (Inr True, s\<lparr>allowances := (allowances s)(key \<mapsto> a)\<rparr>)"
    using assms Some by (simp add: check_authority_key)
  have "fst (transfer_impl args (s\<lparr>allowances := (allowances s)(key \<mapsto> a)\<rparr>)) = Inr ()"
    using assms(3) by (simp add: transfer_impl_def Let_def)
  then show ?thesis using Some ca assms(4)
    by (auto simp add: transfer_def allowance_def)
qed

text \<open>
  Claim C10. A \<open>transfer\<close> from an account to itself, with a sufficient balance and a
  successful authority check, succeeds and leaves every balance and the total supply as
  they were: the debit is stored before the balance is read again for the credit.
\<close>

theorem self_transfer_neutral:
  assumes "tr_to args = tr_from args"
      and "tr_value args \<le> balance_of s (tr_from args)"
      and "fst (check_authority env (tr_from args) True (tr_value args) s) = Inr True"
  shows "fst (transfer env args s) = Inr ()
         \<and> (\<forall>a. balance_of (snd (transfer env args s)) a = balance_of s a)
         \<and> total_supply (snd (transfer env args s)) = total_supply s"
proof -
  define s1 where "s1 = snd (check_authority env (tr_from args) True (tr_value args) s)"
  have b: "balance_of s1 a = balance_of s a" and t: "total_supply s1 = total_supply s" for a
    unfolding s1_def by (simp_all add: check_authority_balance_of)
  have le: "tr_value args \<le> balance_of s1 (tr_from args)" using assms(2) b by simp
  have eq: "transfer env args s = transfer_impl args s1"
    using transfer_authorized [OF assms(3)] by (simp add: s1_def)
  have ok: "fst (transfer_impl args s1) = Inr ()"
    using le by (simp add: transfer_impl_def Let_def)
  have bal: "balance_of (snd (transfer_impl args s1)) a = balance_of s1 a" for a
    using le assms(1) by (simp add: transfer_impl_def Let_def emit_def balance_of_def)
  have sup: "total_supply (snd (transfer_impl args s1)) = total_supply s1"
    using le by (simp add: transfer_impl_def Let_def emit_def total_supply_def)
  show ?thesis using ok bal sup b t by (simp add: eq)
qed

section \<open>The theorems at concrete inputs\<close>

lemma addr_lengths: "length addr_a = 25" "length addr_b = 25" "length token_id = 25"
  by (simp_all add: addr_a_def addr_b_def token_id_def)

lemma addr_distinct: "addr_a \<noteq> addr_b" "addr_b \<noteq> addr_a" "addr_a \<noteq> token_id" "addr_b \<noteq> token_id"
  by (simp_all add: addr_a_def addr_b_def token_id_def)

lemma key_ab: "allowance_key addr_a addr_b = Inr (addr_a @ addr_b)"
  by (simp add: allowance_key_addresses addr_lengths)

lemma caller_b: "calling_contract (test_env (Some addr_b) sigs) = Some addr_b"
  by (simp add: calling_contract_def test_env_def addr_b_def)

lemma no_caller: "calling_contract (test_env (Some []) sigs) = None"
  by (simp add: calling_contract_def test_env_def)

lemma signers_test_env: "getSigners (test_env c sigs) = Inr sigs"
proof -
  have "recover_signers (test_env c sigs') sigs = Inr sigs" for sigs'
    by (induction sigs) (simp_all add: test_env_def)
  then show ?thesis by (simp add: getSigners_def test_env_def)
qed

theorem check_authority_contract_witness:
  "calling_contract (test_env (Some addr_b) [addr_b]) = Some addr_b
   \<and> length addr_b \<le> 25
   \<and> getSigners (test_env (Some addr_b) [addr_b]) = Inr [addr_b]
   \<and> check_authority (test_env (Some addr_b) [addr_b]) addr_a True 300 granted
       = (Inr True, granted\<lparr>allowances := [addr_a @ addr_b \<mapsto> 200]\<rparr>)
   \<and> fst (check_authority (test_env (Some addr_b) [addr_b]) addr_a True 600 granted) \<noteq> Inr True
   \<and> fst (check_authority (test_env (Some addr_b) [addr_b]) addr_b True 600 granted) = Inr True
   \<and> snd (check_authority (test_env (Some addr_b) [addr_b]) addr_a True 600 granted) = granted"
proof -
  have c: "calling_contract (test_env (Some addr_b) [addr_b]) = Some addr_b" by (rule caller_b)
  have l: "length addr_b \<le> 25" by (simp add: addr_lengths)
  have g: "allowances granted (addr_a @ addr_b) = Some 500"
    by (simp add: granted_def)
  have n: "allowances granted (addr_b @ addr_b) = None"
    by (simp add: granted_def addr_distinct)
  have kb: "allowance_key addr_b addr_b = Inr (addr_b @ addr_b)"
    by (simp add: allowance_key_addresses addr_lengths)
  show ?thesis
    using check_authority_contract [OF c l, of addr_a True 300 granted]
          check_authority_contract [OF c l, of addr_a True 600 granted]
          check_authority_contract [OF c l, of addr_b True 600 granted]
    by (simp add: c l key_ab kb g n addr_distinct signers_test_env) (simp add: granted_def)
qed

theorem check_authority_direct_witness:
  "calling_contract (test_env (Some []) [addr_a]) = None
   \<and> length addr_a \<le> 50
   \<and> check_authority (test_env (Some []) [addr_a]) addr_a True 300 granted = (Inr True, granted)
   \<and> check_authority (test_env (Some []) [addr_a]) addr_b True 300 granted = (Inr False, granted)
   \<and> getSigners (test_env (Some []) [addr_a]) = Inr [addr_a]"
proof -
  have c: "calling_contract (test_env (Some []) [addr_a]) = None" by (rule no_caller)
  have la: "True \<longrightarrow> length addr_a \<le> 50" and lb: "True \<longrightarrow> length addr_b \<le> 50"
    by (simp_all add: addr_lengths)
  have ra: "check_authority (test_env (Some []) [addr_a]) addr_a True 300 granted = (Inr True, granted)"
    using check_authority_direct [OF c la, of 300 granted, THEN conjunct1]
    by (simp add: signers_test_env)
  have rb: "check_authority (test_env (Some []) [addr_a]) addr_b True 300 granted = (Inr False, granted)"
    using check_authority_direct [OF c lb, of 300 granted, THEN conjunct1]
    by (simp add: signers_test_env addr_distinct)
  show ?thesis
    using c ra rb by (simp add: addr_lengths signers_test_env)
qed

theorem allowance_spent_only_by_authority_witness:
  "calling_contract (test_env (Some addr_b) []) = Some addr_b
   \<and> allowance_key addr_a addr_b = Inr (addr_a @ addr_b)
   \<and> check_authority (test_env (Some addr_b) []) addr_a True 300 granted
       = (Inr True, granted\<lparr>allowances := [addr_a @ addr_b \<mapsto> 200]\<rparr>)
   \<and> unat (500 - 300 :: u64) = unat (500 :: u64) - unat (300 :: u64)
   \<and> check_authority (test_env (Some addr_b) []) addr_a True 600 granted = (Inr False, granted)"
proof -
  have c: "calling_contract (test_env (Some addr_b) []) = Some addr_b" by (rule caller_b)
  show ?thesis
    using allowance_spent_only_by_authority [OF c key_ab, of granted 300]
          allowance_spent_only_by_authority [OF c key_ab, of granted 600]
    by (simp add: c key_ab granted_def addr_distinct)
qed

lemma caller_token: "calling_contract (test_env (Some token_id) sigs) = Some token_id"
  by (simp add: calling_contract_def test_env_def token_id_def)

lemma caller_a: "calling_contract (test_env (Some addr_a) sigs) = Some addr_a"
  by (simp add: calling_contract_def test_env_def addr_a_def)

lemma authority_spend_granted:
  "check_authority (test_env (Some addr_b) []) addr_a True 300 granted
     = (Inr True, granted\<lparr>allowances := [addr_a @ addr_b \<mapsto> 200]\<rparr>)"
  by (simp add: check_authority_key caller_b key_ab granted_def)

theorem transfer_insufficient_balance_witness:
  "fst (check_authority (test_env (Some addr_b) [])
          (tr_from \<lparr>tr_from = addr_a, tr_to = addr_b, tr_value = 300\<rparr>) True
          (tr_value \<lparr>tr_from = addr_a, tr_to = addr_b, tr_value = 300\<rparr>) granted) = Inr True
   \<and> balance_of granted addr_a < 300
   \<and> transfer (test_env (Some addr_b) []) \<lparr>tr_from = addr_a, tr_to = addr_b, tr_value = 300\<rparr> granted
       = (Inl (Revert ''account 'from' has insufficient balance''),
          granted\<lparr>allowances := [addr_a @ addr_b \<mapsto> 200]\<rparr>)
   \<and> call_contract
        (transfer (test_env (Some addr_b) []) \<lparr>tr_from = addr_a, tr_to = addr_b, tr_value = 300\<rparr>)
        granted
       = (Inl (Revert ''account 'from' has insufficient balance''), granted)"
proof -
  let ?args = "\<lparr>tr_from = addr_a, tr_to = addr_b, tr_value = 300\<rparr>"
  have a: "fst (check_authority (test_env (Some addr_b) []) (tr_from ?args) True (tr_value ?args) granted)
      = Inr True"
    by (simp add: authority_spend_granted)
  have b: "balance_of granted (tr_from ?args) < tr_value ?args"
    by (simp add: balance_of_def granted_def)
  show ?thesis
    using a b transfer_insufficient_balance [OF a b]
    by (simp add: authority_spend_granted)
qed

theorem transfer_zero_needs_record_witness:
  "calling_contract (test_env (Some addr_b) []) = Some addr_b
   \<and> addr_b \<noteq> addr_a
   \<and> allowance_key addr_a addr_b = Inr (addr_a @ addr_b)
   \<and> fst (transfer (test_env (Some addr_b) []) \<lparr>tr_from = addr_a, tr_to = token_id, tr_value = 0\<rparr>
          granted_zero) = Inr ()
   \<and> fst (transfer (test_env (Some addr_b) []) \<lparr>tr_from = addr_a, tr_to = token_id, tr_value = 0\<rparr>
          init_state) = Inl (Revert ''from has not authorized transfer'')
   \<and> allowance \<lparr>al_owner = addr_a, al_spender = addr_b\<rparr> granted_zero = Inr 0
   \<and> allowance \<lparr>al_owner = addr_a, al_spender = addr_b\<rparr> init_state = Inr 0"
proof -
  let ?args = "\<lparr>tr_from = addr_a, tr_to = token_id, tr_value = 0\<rparr>"
  have c: "calling_contract (test_env (Some addr_b) []) = Some addr_b" by (rule caller_b)
  have d: "addr_b \<noteq> tr_from ?args" by (simp add: addr_distinct)
  have z: "tr_value ?args = 0" by simp
  have k: "allowance_key (tr_from ?args) addr_b = Inr (addr_a @ addr_b)" by (simp add: key_ab)
  show ?thesis
    using transfer_zero_needs_record [OF c d z k, of granted_zero]
          transfer_zero_needs_record [OF c d z k, of init_state]
    by (simp add: c key_ab addr_distinct granted_zero_def init_state_def)
qed

theorem self_transfer_neutral_witness:
  "10 \<le> balance_of minted addr_a
   \<and> fst (check_authority (test_env (Some addr_a) []) addr_a True 10 minted) = Inr True
   \<and> fst (transfer (test_env (Some addr_a) []) \<lparr>tr_from = addr_a, tr_to = addr_a, tr_value = 10\<rparr>
          minted) = Inr ()
   \<and> balance_of (snd (transfer (test_env (Some addr_a) [])
          \<lparr>tr_from = addr_a, tr_to = addr_a, tr_value = 10\<rparr> minted)) addr_a = 123
   \<and> total_supply (snd (transfer (test_env (Some addr_a) [])
          \<lparr>tr_from = addr_a, tr_to = addr_a, tr_value = 10\<rparr> minted)) = 123"
proof -
  let ?args = "\<lparr>tr_from = addr_a, tr_to = addr_a, tr_value = 10\<rparr>"
  have e: "tr_to ?args = tr_from ?args" by simp
  have b: "balance_of minted addr_a = 123" and t: "total_supply minted = 123"
    by (simp_all add: minted_eq balance_of_def total_supply_def)
  have le: "tr_value ?args \<le> balance_of minted (tr_from ?args)" by (simp add: b)
  have "check_authority (test_env (Some addr_a) []) addr_a True 10 minted = (Inr True, minted)"
    by (simp add: check_authority_key caller_a allowance_key_addresses addr_lengths minted_eq)
  then have a: "fst (check_authority (test_env (Some addr_a) []) (tr_from ?args) True (tr_value ?args) minted)
      = Inr True" by simp
  show ?thesis
    using a self_transfer_neutral [OF e le a]
    by (simp add: b t)
qed

theorem approve_overwrites_witness:
  "fst (check_authority (test_env (Some addr_a) []) addr_a False 0 granted) = Inr True
   \<and> allowance_key addr_a addr_b = Inr (addr_a @ addr_b)
   \<and> allowance \<lparr>al_owner = addr_a, al_spender = addr_b\<rparr> granted = Inr 500
   \<and> allowance \<lparr>al_owner = addr_a, al_spender = addr_b\<rparr>
        (snd (repeat_call 3 (approve (test_env (Some addr_a) [])
           \<lparr>ap_owner = addr_a, ap_spender = addr_b, ap_value = 7\<rparr>) granted)) = Inr 7
   \<and> map ev_impacted (events (snd (repeat_call 3 (approve (test_env (Some addr_a) [])
           \<lparr>ap_owner = addr_a, ap_spender = addr_b, ap_value = 7\<rparr>) granted)))
       = [[addr_b, addr_a], [addr_b, addr_a], [addr_b, addr_a]]"
proof -
  let ?args = "\<lparr>ap_owner = addr_a, ap_spender = addr_b, ap_value = 7\<rparr>"
  have a: "fst (check_authority (test_env (Some addr_a) []) (ap_owner ?args) False 0 granted) = Inr True"
    by (simp add: check_authority_no_allowances caller_a)
  have k: "allowance_key (ap_owner ?args) (ap_spender ?args) = Inr (addr_a @ addr_b)"
    by (simp add: key_ab)
  have three: "(3::nat) = Suc 2" by simp
  show ?thesis
    using a approve_overwrites [OF a k, of 2]
    unfolding three
    by (simp add: key_ab allowance_def granted_def numeral_2_eq_2 del: repeat_call.simps)
qed

theorem mint_supply_check_witness:
  "fst (check_authority (test_env (Some token_id) []) (contractId (test_env (Some token_id) [])) False 0
          minted) = Inr True
   \<and> reachable 1000 minted
   \<and> total_supply minted = 123
   \<and> fst (mint 1000 (test_env (Some token_id) []) \<lparr>mi_to = addr_a, mi_value = 877\<rparr> minted) = Inr ()
   \<and> unat (balance_of (snd (mint 1000 (test_env (Some token_id) [])
            \<lparr>mi_to = addr_a, mi_value = 877\<rparr> minted)) addr_a) = 1000
   \<and> total_supply (snd (mint 1000 (test_env (Some token_id) [])
            \<lparr>mi_to = addr_a, mi_value = 877\<rparr> minted)) = 1000
   \<and> mint 1000 (test_env (Some token_id) []) \<lparr>mi_to = addr_a, mi_value = 878\<rparr> minted
       = (Inl (Revert ''mint would overflow supply''), minted)
   \<and> mint 1000 (test_env (Some token_id) []) \<lparr>mi_to = addr_a, mi_value = 0xFFFFFFFFFFFFFFFF\<rparr> minted
       = (Inl (Revert ''mint would overflow supply''), minted)"
proof -
  let ?env = "test_env (Some token_id) []"
  have a: "fst (check_authority ?env (contractId ?env) False 0 minted) = Inr True"
    by (simp add: check_authority_no_allowances caller_token) (simp add: test_env_def)
  have r: "reachable 1000 minted"
    unfolding minted_def by (rule reachable_step [OF reachable_init])
  have b: "balance_of minted addr_a = 123" and t: "total_supply minted = 123"
    by (simp_all add: minted_eq balance_of_def total_supply_def)
  show ?thesis
    using a r
      mint_supply_check [OF a, of 1000 "\<lparr>mi_to = addr_a, mi_value = 877\<rparr>"]
      mint_supply_check [OF a, of 1000 "\<lparr>mi_to = addr_a, mi_value = 878\<rparr>"]
      mint_supply_check [OF a, of 1000 "\<lparr>mi_to = addr_a, mi_value = 0xFFFFFFFFFFFFFFFF\<rparr>"]
    by (simp add: b t)
qed

end
